theory Spec2Isabelle
  imports Complex_Main "HOL-Library.Word"
begin

section \<open>Data model\<close>

text \<open>
  The scheduler of \<^verbatim>\<open>loanscheduler.cpp\<close>. A C++ \<^verbatim>\<open>int\<close> is a 32-bit word read
  as a signed number (\<open>sint\<close>); a subtraction that overflows, which C++ leaves
  undefined, wraps around here. A C++ \<^verbatim>\<open>double\<close> is idealised as a real number:
  rounding, infinities and NaN are outside this model, and \<^verbatim>\<open>log1p(x)\<close> is
  \<open>ln (1 + x)\<close>.
\<close>

type_synonym cint = "32 word"

record Loan =
  idL :: cint
  name :: string
  principal :: real
  annualRate :: real
  daysUntilDue :: cint
  lateFee :: real
  creditFactor :: real
  variableRate :: bool
  inflationSensitivity :: real

text \<open>The constructor \<^verbatim>\<open>Loan::Loan\<close> with all nine arguments given.\<close>

definition Loan_ctor ::
  "cint \<Rightarrow> string \<Rightarrow> real \<Rightarrow> real \<Rightarrow> cint \<Rightarrow> real \<Rightarrow> real \<Rightarrow> bool \<Rightarrow> real \<Rightarrow> Loan" where
  "Loan_ctor i n p rate days fee credit var sens =
     \<lparr>idL = i, name = n, principal = p, annualRate = rate, daysUntilDue = days,
      lateFee = fee, creditFactor = credit, variableRate = var,
      inflationSensitivity = sens\<rparr>"

text \<open>
  The same constructor called with eight arguments: the ninth parameter takes its
  default \<^verbatim>\<open>inflationSensitivity = 0.0\<close>.
\<close>

definition Loan_ctor8 ::
  "cint \<Rightarrow> string \<Rightarrow> real \<Rightarrow> real \<Rightarrow> cint \<Rightarrow> real \<Rightarrow> real \<Rightarrow> bool \<Rightarrow> Loan" where
  "Loan_ctor8 i n p rate days fee credit var = Loan_ctor i n p rate days fee credit var 0"

section \<open>Scoring\<close>

definition clamp :: "real \<Rightarrow> real \<Rightarrow> real \<Rightarrow> real" where
  "clamp v lo hi = max lo (min v hi)"

text \<open>The conversion of an \<^verbatim>\<open>int\<close> argument to \<^verbatim>\<open>double\<close>, which is exact.\<close>

definition double_of_int :: "cint \<Rightarrow> real" where
  "double_of_int d = real_of_int (sint d)"

definition log1p :: "real \<Rightarrow> real" where
  "log1p x = ln (1 + x)"

definition computeUrgency :: "cint \<Rightarrow> real" where
  "computeUrgency days =
     (if sint days \<le> 0 then 1
      else 1 / (1 + log1p (double_of_int days)))"

definition computePriority :: "Loan \<Rightarrow> real \<Rightarrow> real" where
  "computePriority L inflationRate =
     (if principal L \<le> 1 / 10 ^ 6 then - (10 ^ 15)
      else
        let urgency = computeUrgency (daysUntilDue L);
            interestImpact = (annualRate L / 100) * (principal L / 1000);
            perRupeePenalty0 = lateFee L / max 1 (principal L);
            perRupeePenalty = clamp perRupeePenalty0 0 5000;
            penaltyWeight = perRupeePenalty * 10000 * urgency;
            creditImpact = creditFactor L * 100;
            inflationAdj =
              (if variableRate L
               then - inflationRate * inflationSensitivity L * (principal L / 1000)
               else 0);
            priority = (interestImpact * 1.5) + (penaltyWeight * 0.8)
                       + (creditImpact * 0.8) + (urgency * 5000) + inflationAdj
        in if sint (daysUntilDue L) \<le> 5 then priority * 1.25 else priority)"

subsection \<open>The components as section 4.1 of the specification words them\<close>

definition spec_urgency :: "int \<Rightarrow> real" where
  "spec_urgency d = (if d \<le> 0 then 1 else 1 / (1 + ln (1 + real_of_int d)))"

definition spec_interestImpact :: "Loan \<Rightarrow> real" where
  "spec_interestImpact L = (annualRate L / 100) * (principal L / 1000)"

definition spec_penaltyRatio :: "Loan \<Rightarrow> real" where
  "spec_penaltyRatio L =
     (let r = lateFee L / max 1 (principal L)
      in if r < 0 then 0 else if 5000 < r then 5000 else r)"

definition spec_penaltyWeight :: "Loan \<Rightarrow> real" where
  "spec_penaltyWeight L =
     spec_penaltyRatio L * 10000 * spec_urgency (sint (daysUntilDue L))"

definition spec_creditImpact :: "Loan \<Rightarrow> real" where
  "spec_creditImpact L = creditFactor L * 100"

definition spec_inflationAdjustment :: "Loan \<Rightarrow> real \<Rightarrow> real" where
  "spec_inflationAdjustment L inflationRate =
     (if variableRate L
      then - inflationRate * inflationSensitivity L * (principal L / 1000)
      else 0)"

definition spec_weightedSum :: "Loan \<Rightarrow> real \<Rightarrow> real" where
  "spec_weightedSum L inflationRate =
     1.5 * spec_interestImpact L + 0.8 * spec_penaltyWeight L
     + 0.8 * spec_creditImpact L + 5000 * spec_urgency (sint (daysUntilDue L))
     + spec_inflationAdjustment L inflationRate"

section \<open>The ranking structure\<close>

text \<open>
  The \<^verbatim>\<open>std::priority_queue\<close> of pairs of a score and a loan is library code.
  Its content is modelled as the list of the pushed pairs in push order. \<open>pq_top\<close>
  is the first pushed pair among those of greatest score: \<open>Compare\<close> is strict, so
  in a binary heap a pair pushed later never displaces a pair of equal score from the
  root. The order in which later pops deliver pairs of equal score is not fixed by the
  library's contract; here the earlier pushed pair comes first. No result below depends
  on the order among equal scores.
\<close>

type_synonym heap = "(real \<times> Loan) list"

definition Compare :: "real \<times> Loan \<Rightarrow> real \<times> Loan \<Rightarrow> bool" where
  "Compare a b = (fst a < fst b)"

fun pq_best :: "real \<times> Loan \<Rightarrow> heap \<Rightarrow> real \<times> Loan" where
  "pq_best b [] = b"
| "pq_best b (x # xs) = pq_best (if Compare b x then x else b) xs"

text \<open>\<open>pq_top\<close> and \<open>pq_pop\<close> are only called on a non-empty queue, as in the source.\<close>

definition pq_top :: "heap \<Rightarrow> real \<times> Loan" where
  "pq_top q = pq_best (hd q) (tl q)"

definition pq_pop :: "heap \<Rightarrow> heap" where
  "pq_pop q = remove1 (pq_top q) q"

definition pq_push :: "heap \<Rightarrow> real \<times> Loan \<Rightarrow> heap" where
  "pq_push q x = q @ [x]"

lemma pq_best_in: "pq_best b xs \<in> set (b # xs)"
  by (induction xs arbitrary: b) (auto split: if_splits)

lemma pq_top_in: "q \<noteq> [] \<Longrightarrow> pq_top q \<in> set q"
  using pq_best_in [of "hd q" "tl q"] by (cases q) (simp_all add: pq_top_def)

lemma length_pq_pop: "q \<noteq> [] \<Longrightarrow> length (pq_pop q) < length q"
proof -
  assume ne: "q \<noteq> []"
  then have "pq_top q \<in> set q" by (rule pq_top_in)
  then have "length (pq_pop q) = length q - 1"
    by (simp add: pq_pop_def length_remove1)
  with ne show ?thesis by (cases q) simp_all
qed

lemma set_pq_pop: "set (pq_pop q) \<subseteq> set q"
  by (simp add: pq_pop_def set_remove1_subset)

section \<open>The scheduler\<close>

record AdaptiveScheduler =
  loans :: "Loan list"
  inflationRate :: real
  pq :: heap

text \<open>
  The member functions return \<^verbatim>\<open>void\<close> and report on \<^verbatim>\<open>cout\<close>. The model
  returns what they print as a list of events, one per message or table row, together
  with the scheduler they leave behind.
\<close>

datatype event =
    NoLoansToDisplay
  | PrioritiesHeader
  | Row string real real cint
  | AllRepaid
  | NoLoansForRepayment
  | InvalidAmount
  | Allocating real
  | Paid real string real
  | LeftoverCash real
  | NoDaysSimulated
  | Simulated cint

text \<open>The constructor, with the default argument written out, and \<^verbatim>\<open>addLoan\<close>.\<close>

definition AdaptiveScheduler_ctor :: "real \<Rightarrow> AdaptiveScheduler" where
  "AdaptiveScheduler_ctor r = \<lparr>loans = [], inflationRate = r, pq = []\<rparr>"

definition addLoan :: "Loan \<Rightarrow> AdaptiveScheduler \<Rightarrow> AdaptiveScheduler" where
  "addLoan L s = s\<lparr>loans := loans s @ [L]\<rparr>"

text \<open>\<^verbatim>\<open>while (!pq.empty()) pq.pop();\<close>\<close>

function pq_clear :: "heap \<Rightarrow> heap" where
  "pq_clear q = (if q \<noteq> [] then pq_clear (pq_pop q) else q)"
  by pat_completeness auto
termination
  by (relation "measure length") (auto simp: length_pq_pop)

declare pq_clear.simps [simp del]

definition rebuildHeap :: "AdaptiveScheduler \<Rightarrow> AdaptiveScheduler" where
  "rebuildHeap s =
     s\<lparr>pq := foldl (\<lambda>q L. pq_push q (computePriority L (inflationRate s), L))
                    (pq_clear (pq s)) (loans s)\<rparr>"

text \<open>The loop of \<^verbatim>\<open>displayPriorities\<close> over the copy \<^verbatim>\<open>temp\<close> of the queue.\<close>

function displayLoop :: "heap \<Rightarrow> bool \<Rightarrow> event list \<Rightarrow> bool \<times> event list" where
  "displayLoop temp anyShown out =
     (if temp \<noteq> [] then
        (let (score, L) = pq_top temp;
             temp' = pq_pop temp
         in if principal L \<le> 1 / 10 ^ 6 then displayLoop temp' anyShown out
            else displayLoop temp' True
                   (out @ [Row (name L) score (principal L) (daysUntilDue L)]))
      else (anyShown, out))"
  by pat_completeness auto
termination
  by (relation "measure (\<lambda>(temp, anyShown, out). length temp)") (auto simp: length_pq_pop)

declare displayLoop.simps [simp del]

definition displayPriorities :: "AdaptiveScheduler \<Rightarrow> event list \<times> AdaptiveScheduler" where
  "displayPriorities s =
     (if loans s = [] then ([NoLoansToDisplay], s)
      else
        let s1 = rebuildHeap s;
            (anyShown, rows) = displayLoop (pq s1) False []
        in (PrioritiesHeader # rows @ (if \<not> anyShown then [AllRepaid] else []), s1))"

text \<open>
  The write-back of \<^verbatim>\<open>allocatePayment\<close> into the master list: the first loan with
  the id gets the principal, and the search stops there.
\<close>

fun updateMaster :: "Loan list \<Rightarrow> cint \<Rightarrow> real \<Rightarrow> Loan list" where
  "updateMaster [] i p = []"
| "updateMaster (loan # rest) i p =
     (if idL loan = i then loan\<lparr>principal := p\<rparr> # rest
      else loan # updateMaster rest i p)"

text \<open>
  One pass through the body of the \<^verbatim>\<open>while\<close> loop of \<^verbatim>\<open>allocatePayment\<close>: the
  remaining amount, the scheduler and the line printed.
\<close>

definition allocBody :: "real \<Rightarrow> AdaptiveScheduler \<Rightarrow> real \<times> AdaptiveScheduler \<times> event" where
  "allocBody amount s =
     (let (score, L) = pq_top (pq s);
          s1 = s\<lparr>pq := pq_pop (pq s)\<rparr>;
          pay = min amount (principal L);
          amount' = amount - pay;
          L' = L\<lparr>principal := principal L - pay\<rparr>;
          s2 = s1\<lparr>loans := updateMaster (loans s1) (idL L') (principal L')\<rparr>
      in (amount', rebuildHeap s2, Paid pay (name L') (principal L')))"

text \<open>
  The loop itself. It may run forever, so it is a partial function: \<open>None\<close> is a loop
  that does not return.
\<close>

partial_function (option) allocLoop ::
  "real \<Rightarrow> AdaptiveScheduler \<Rightarrow> event list \<Rightarrow> (real \<times> AdaptiveScheduler \<times> event list) option" where
  "allocLoop amount s out =
     (if 0 < amount \<and> pq s \<noteq> [] then
        (case allocBody amount s of
           (amount', s', line) \<Rightarrow> allocLoop amount' s' (out @ [line]))
      else Some (amount, s, out))"

text \<open>
  The state of the same loop after at most \<open>n\<close> passes. It says what holds during a
  run, whether or not the run returns.
\<close>

fun allocAfter ::
  "nat \<Rightarrow> real \<Rightarrow> AdaptiveScheduler \<Rightarrow> event list \<Rightarrow> real \<times> AdaptiveScheduler \<times> event list" where
  "allocAfter 0 amount s out = (amount, s, out)"
| "allocAfter (Suc n) amount s out =
     (if 0 < amount \<and> pq s \<noteq> [] then
        (case allocBody amount s of
           (amount', s', line) \<Rightarrow> allocAfter n amount' s' (out @ [line]))
      else (amount, s, out))"

definition allocatePayment ::
  "real \<Rightarrow> AdaptiveScheduler \<Rightarrow> (event list \<times> AdaptiveScheduler) option" where
  "allocatePayment amount s =
     (if loans s = [] then Some ([NoLoansForRepayment], s)
      else if amount \<le> 0 then Some ([InvalidAmount], s)
      else
        (case allocLoop amount (rebuildHeap s) [Allocating amount] of
           None \<Rightarrow> None
         | Some (amount', s', out) \<Rightarrow>
             (let out' = (if 0 < amount' then out @ [LeftoverCash amount'] else out);
                  (shown, s'') = displayPriorities s'
              in Some (out' @ shown, s''))))"

definition simulateDays :: "cint \<Rightarrow> AdaptiveScheduler \<Rightarrow> event list \<times> AdaptiveScheduler" where
  "simulateDays days s =
     (if days = 0 then ([NoDaysSimulated], s)
      else
        let s1 = s\<lparr>loans := map (\<lambda>L. L\<lparr>daysUntilDue := daysUntilDue L - days\<rparr>) (loans s)\<rparr>;
            s2 = rebuildHeap s1;
            (shown, s3) = displayPriorities s2
        in (Simulated days # shown, s3))"

text \<open>What a report says was paid, and what it says was left over.\<close>

fun paidAmount :: "event \<Rightarrow> real" where
  "paidAmount (Paid pay n rest) = pay"
| "paidAmount e = 0"

fun leftoverAmount :: "event \<Rightarrow> real" where
  "leftoverAmount (LeftoverCash x) = x"
| "leftoverAmount e = 0"

definition totalPaid :: "event list \<Rightarrow> real" where
  "totalPaid out = sum_list (map paidAmount out)"

definition reportedLeftover :: "event list \<Rightarrow> real" where
  "reportedLeftover out = sum_list (map leftoverAmount out)"

text \<open>
  Choice 1 of the menu in \<^verbatim>\<open>main\<close>: the loan is built from the values read, with
  eight constructor arguments, and added.
\<close>

definition menu_newLoan ::
  "cint \<Rightarrow> string \<Rightarrow> real \<Rightarrow> real \<Rightarrow> cint \<Rightarrow> real \<Rightarrow> real \<Rightarrow> char \<Rightarrow> Loan" where
  "menu_newLoan i n principal0 rate days fee credit varRate =
     Loan_ctor8 i n principal0 rate days fee credit
       (varRate = CHR ''y'' \<or> varRate = CHR ''Y'')"

definition menu_addLoan ::
  "cint \<Rightarrow> string \<Rightarrow> real \<Rightarrow> real \<Rightarrow> cint \<Rightarrow> real \<Rightarrow> real \<Rightarrow> char
     \<Rightarrow> AdaptiveScheduler \<Rightarrow> AdaptiveScheduler" where
  "menu_addLoan i n principal0 rate days fee credit varRate s =
     addLoan (menu_newLoan i n principal0 rate days fee credit varRate) s"

section \<open>Example loans\<close>

text \<open>
  The two loans of the scenario in section 8 of the specification, and two overdue
  loans, whose scores are rational numbers.
\<close>

definition loanA :: Loan where
  "loanA = Loan_ctor 1 ''A'' 10000 12 3 500 0.5 False 0"

definition loanB :: Loan where
  "loanB = Loan_ctor 2 ''B'' 5000 8 60 100 0.2 False 0"

definition loanC :: Loan where
  "loanC = Loan_ctor 1 ''C'' 100 12 0 50 0.5 False 0"

definition loanD :: Loan where
  "loanD = Loan_ctor 2 ''D'' 50 8 (- 3) 10 0.2 True 0"

definition loanPaid :: Loan where
  "loanPaid = Loan_ctor 1 ''P'' 0 12 30 500 0.5 False 0"

text \<open>Schedulers built as \<^verbatim>\<open>main\<close> builds them, with inflation rate 0.05.\<close>

definition schedC :: AdaptiveScheduler where
  "schedC = addLoan loanC (AdaptiveScheduler_ctor 0.05)"

definition schedCD :: AdaptiveScheduler where
  "schedCD = addLoan loanD (addLoan loanC (AdaptiveScheduler_ctor 0.05))"

definition schedPaid :: AdaptiveScheduler where
  "schedPaid = addLoan loanPaid (AdaptiveScheduler_ctor 0.05)"

definition schedA :: AdaptiveScheduler where
  "schedA = addLoan loanA (AdaptiveScheduler_ctor 0.05)"

definition schedPaidB :: AdaptiveScheduler where
  "schedPaidB = addLoan loanB (addLoan loanPaid (AdaptiveScheduler_ctor 0.05))"

section \<open>Invariants of the allocation loop\<close>

text \<open>The queue holds exactly the scored loans of the master list, as after \<^verbatim>\<open>rebuildHeap\<close>.\<close>

definition inSync :: "AdaptiveScheduler \<Rightarrow> bool" where
  "inSync s = (pq s = map (\<lambda>L. (computePriority L (inflationRate s), L)) (loans s))"

text \<open>
  A payment greater than all that is owed, on loans with distinct ids and principals
  that are not negative.
\<close>

definition overpaid :: "real \<Rightarrow> AdaptiveScheduler \<Rightarrow> bool" where
  "overpaid amount s =
     (inSync s \<and> loans s \<noteq> [] \<and> distinct (map idL (loans s))
      \<and> list_all (\<lambda>L. 0 \<le> principal L) (loans s)
      \<and> sum_list (map principal (loans s)) < amount)"

section \<open>Properties of the scoring function\<close>

lemma double_of_int_less: "sint a < sint b \<Longrightarrow> double_of_int a < double_of_int b"
  unfolding double_of_int_def by (simp only: of_int_less_iff)

lemma double_of_int_ge_1: "0 < sint d \<Longrightarrow> 1 \<le> double_of_int d"
proof -
  assume "0 < sint d"
  then have "1 \<le> sint d" by simp
  then have "real_of_int 1 \<le> real_of_int (sint d)" by (simp only: of_int_le_iff)
  then show ?thesis unfolding double_of_int_def by (simp only: of_int_1)
qed

lemma log1p_pos: "0 < x \<Longrightarrow> 0 < log1p x"
  by (simp add: log1p_def)

lemma log1p_less: "0 < x \<Longrightarrow> x < y \<Longrightarrow> log1p x < log1p y"
  by (simp add: log1p_def)

lemma computeUrgency_pos: "0 < computeUrgency days"
proof (cases "sint days \<le> 0")
  case True
  then show ?thesis by (simp add: computeUrgency_def)
next
  case False
  then have "1 \<le> double_of_int days" by (simp add: double_of_int_ge_1)
  then have "0 < log1p (double_of_int days)" by (simp add: log1p_pos)
  with False show ?thesis by (simp add: computeUrgency_def add_pos_pos)
qed

lemma computeUrgency_lt_1:
  assumes "0 < sint days"
  shows "computeUrgency days < 1"
proof -
  from assms have "1 \<le> double_of_int days" by (rule double_of_int_ge_1)
  then have "0 < log1p (double_of_int days)" by (simp add: log1p_pos)
  with assms show ?thesis by (simp add: computeUrgency_def)
qed

lemma computeUrgency_decreasing:
  assumes "0 < sint d1" "sint d1 < sint d2"
  shows "computeUrgency d2 < computeUrgency d1"
proof -
  from assms(1) have p1: "0 < double_of_int d1"
    using double_of_int_ge_1 [of d1] by simp
  from assms(2) have "double_of_int d1 < double_of_int d2" by (rule double_of_int_less)
  with p1 have lt: "log1p (double_of_int d1) < log1p (double_of_int d2)"
    by (rule log1p_less)
  from p1 have "0 < log1p (double_of_int d1)" by (rule log1p_pos)
  with lt have "1 / (1 + log1p (double_of_int d2)) < 1 / (1 + log1p (double_of_int d1))"
    by (simp add: frac_less2)
  with assms show ?thesis by (simp add: computeUrgency_def)
qed

lemma computeUrgency_eq:
  "0 < sint days \<Longrightarrow> computeUrgency days = 1 / (1 + ln (1 + real_of_int (sint days)))"
  unfolding computeUrgency_def log1p_def double_of_int_def
  by (simp only: not_le [symmetric] if_False)

text \<open>
  Claim C4. \<open>computeUrgency days\<close> is exactly 1 for every \<open>days \<le> 0\<close>, overdue
  values included. For \<open>days > 0\<close> it is \<open>1 / (1 + ln (1 + days))\<close>, lies strictly
  between 0 and 1, and is strictly smaller at every greater number of days.
\<close>

theorem computeUrgency_props:
  "(sint days \<le> 0 \<longrightarrow> computeUrgency days = 1)
   \<and> (0 < sint days \<longrightarrow>
        computeUrgency days = 1 / (1 + ln (1 + real_of_int (sint days)))
        \<and> 0 < computeUrgency days \<and> computeUrgency days < 1)
   \<and> (0 < sint days \<and> sint days < sint days' \<longrightarrow> computeUrgency days' < computeUrgency days)"
proof (intro conjI impI)
  assume "sint days \<le> 0"
  then show "computeUrgency days = 1" by (simp add: computeUrgency_def)
next
  assume "0 < sint days"
  then show "computeUrgency days = 1 / (1 + ln (1 + real_of_int (sint days)))"
    by (rule computeUrgency_eq)
next
  show "0 < computeUrgency days" by (rule computeUrgency_pos)
next
  assume "0 < sint days"
  then show "computeUrgency days < 1" by (rule computeUrgency_lt_1)
next
  assume "0 < sint days \<and> sint days < sint days'"
  then show "computeUrgency days' < computeUrgency days"
    by (simp add: computeUrgency_decreasing)
qed

theorem computeUrgency_props_witness:
  "sint (- 7 :: cint) \<le> 0 \<and> computeUrgency (- 7) = 1
   \<and> 0 < sint (3 :: cint) \<and> sint (3 :: cint) < sint (4 :: cint)
   \<and> 0 < computeUrgency 3 \<and> computeUrgency 3 < 1
   \<and> computeUrgency 4 < computeUrgency 3"
proof -
  have h1: "sint (- 7 :: cint) \<le> 0" by simp
  have h2: "0 < sint (3 :: cint)" by simp
  have h3: "sint (3 :: cint) < sint (4 :: cint)" by simp
  from h1 h2 h3 show ?thesis
    using computeUrgency_props [of "- 7" 0] computeUrgency_props [of 3 4] by blast
qed

lemma clamp_spec: "clamp v 0 5000 = (if v < 0 then 0 else if 5000 < v then 5000 else v)"
  by (simp add: clamp_def max_def min_def)

lemma computeUrgency_spec: "computeUrgency days = spec_urgency (sint days)"
  by (simp add: computeUrgency_def spec_urgency_def log1p_def double_of_int_def)

text \<open>
  Claim C3. For a loan that is not settled (\<open>principal > 1e-6\<close>) the score is the
  weighted sum \<open>1.5 * interestImpact + 0.8 * penaltyWeight + 0.8 * creditImpact
  + 5000 * urgency + inflationAdjustment\<close> of the components of section 4.1, and when
  \<open>daysUntilDue \<le> 5\<close> the whole sum is multiplied by 1.25.
\<close>

theorem computePriority_formula:
  assumes "1 / 10 ^ 6 < principal L"
  shows "computePriority L r =
           (if sint (daysUntilDue L) \<le> 5 then 1.25 * spec_weightedSum L r
            else spec_weightedSum L r)"
  using assms
  by (simp add: computePriority_def Let_def spec_weightedSum_def spec_interestImpact_def
      spec_penaltyWeight_def spec_penaltyRatio_def spec_creditImpact_def
      spec_inflationAdjustment_def clamp_spec computeUrgency_spec)

theorem computePriority_formula_witness:
  "1 / 10 ^ 6 < principal loanA
   \<and> computePriority loanA 0.05 = 1.25 * spec_weightedSum loanA 0.05
   \<and> 1 / 10 ^ 6 < principal loanB
   \<and> computePriority loanB 0.05 = spec_weightedSum loanB 0.05"
proof -
  have a: "1 / 10 ^ 6 < principal loanA" and a5: "sint (daysUntilDue loanA) \<le> 5"
    by (simp_all add: loanA_def Loan_ctor_def)
  have b: "1 / 10 ^ 6 < principal loanB" and b5: "\<not> sint (daysUntilDue loanB) \<le> 5"
    by (simp_all add: loanB_def Loan_ctor_def)
  from a a5 b b5 show ?thesis
    using computePriority_formula [OF a, of "0.05"] computePriority_formula [OF b, of "0.05"]
    by (simp only: if_True if_False simp_thms)
qed

lemma clamp_mono: "v \<le> w \<Longrightarrow> clamp v lo hi \<le> clamp w lo hi"
  by (auto simp: clamp_def max_def min_def)

lemma computePriority_annualRate_mono:
  assumes act: "1 / 10 ^ 6 < principal L" and le: "r1 \<le> r2"
  shows "computePriority (L\<lparr>annualRate := r1\<rparr>) infl
           \<le> computePriority (L\<lparr>annualRate := r2\<rparr>) infl"
proof -
  from act have "0 \<le> principal L / 1000" by simp
  with le have "r1 / 100 * (principal L / 1000) \<le> r2 / 100 * (principal L / 1000)"
    by (intro mult_right_mono) simp_all
  with act show ?thesis
    by (simp add: computePriority_def Let_def)
qed

lemma computePriority_lateFee_mono:
  assumes act: "1 / 10 ^ 6 < principal L" and le: "f1 \<le> f2"
  shows "computePriority (L\<lparr>lateFee := f1\<rparr>) infl
           \<le> computePriority (L\<lparr>lateFee := f2\<rparr>) infl"
proof -
  have "0 < max 1 (principal L)" by simp
  with le have "f1 / max 1 (principal L) \<le> f2 / max 1 (principal L)"
    by (simp add: divide_right_mono)
  then have "clamp (f1 / max 1 (principal L)) 0 5000 \<le> clamp (f2 / max 1 (principal L)) 0 5000"
    by (rule clamp_mono)
  moreover have "0 \<le> computeUrgency (daysUntilDue L)"
    using computeUrgency_pos [of "daysUntilDue L"] by simp
  ultimately have
    "computeUrgency (daysUntilDue L) * clamp (f1 / max 1 (principal L)) 0 5000
       \<le> computeUrgency (daysUntilDue L) * clamp (f2 / max 1 (principal L)) 0 5000"
    by (rule mult_left_mono)
  with act show ?thesis
    by (simp add: computePriority_def Let_def)
qed

text \<open>
  Claim C6. For a loan that is not settled, with every other attribute and the inflation
  rate held fixed, a greater \<open>annualRate\<close> never gives a smaller score, and a greater
  \<open>lateFee\<close> never gives a smaller score.
\<close>

theorem computePriority_monotone:
  assumes "1 / 10 ^ 6 < principal L"
  shows "(r1 \<le> r2 \<longrightarrow>
            computePriority (L\<lparr>annualRate := r1\<rparr>) infl
              \<le> computePriority (L\<lparr>annualRate := r2\<rparr>) infl)
         \<and> (f1 \<le> f2 \<longrightarrow>
            computePriority (L\<lparr>lateFee := f1\<rparr>) infl
              \<le> computePriority (L\<lparr>lateFee := f2\<rparr>) infl)"
  using assms computePriority_annualRate_mono computePriority_lateFee_mono by blast

theorem computePriority_monotone_witness:
  "1 / 10 ^ 6 < principal loanA
   \<and> computePriority (loanA\<lparr>annualRate := 12\<rparr>) 0.05
       \<le> computePriority (loanA\<lparr>annualRate := 15\<rparr>) 0.05
   \<and> computePriority (loanA\<lparr>lateFee := 500\<rparr>) 0.05
       \<le> computePriority (loanA\<lparr>lateFee := 800\<rparr>) 0.05"
proof -
  have h: "1 / 10 ^ 6 < principal loanA" by (simp add: loanA_def Loan_ctor_def)
  from computePriority_monotone [OF h, of 12 15 "0.05" 500 800] h show ?thesis by simp
qed

text \<open>
  Claim C10. A loan built by choice 1 of the menu has \<open>inflationSensitivity = 0\<close>,
  whatever was typed, also for a variable rate. Its inflation adjustment is therefore 0,
  and its score is the same under any two inflation rates.
\<close>

theorem menu_loan_ignores_inflation:
  "loans (menu_addLoan i n p rate days fee credit varRate s)
     = loans s @ [menu_newLoan i n p rate days fee credit varRate]
   \<and> inflationSensitivity (menu_newLoan i n p rate days fee credit varRate) = 0
   \<and> spec_inflationAdjustment (menu_newLoan i n p rate days fee credit varRate) r1 = 0
   \<and> computePriority (menu_newLoan i n p rate days fee credit varRate) r1
       = computePriority (menu_newLoan i n p rate days fee credit varRate) r2"
  by (simp add: menu_addLoan_def addLoan_def menu_newLoan_def Loan_ctor8_def Loan_ctor_def
      spec_inflationAdjustment_def computePriority_def Let_def)

section \<open>Properties of the ranking and of the display\<close>

lemma pq_clear_empty: "pq_clear q = []"
proof (induction q rule: pq_clear.induct)
  case (1 q)
  then show ?case by (subst pq_clear.simps) simp
qed

lemma foldl_push: "foldl (\<lambda>q L. pq_push q (f L, L)) q0 xs = q0 @ map (\<lambda>L. (f L, L)) xs"
  by (induction xs arbitrary: q0) (simp_all add: pq_push_def)

lemma pq_rebuildHeap:
  "pq (rebuildHeap s) = map (\<lambda>L. (computePriority L (inflationRate s), L)) (loans s)"
  by (simp add: rebuildHeap_def pq_clear_empty foldl_push)

lemma loans_rebuildHeap: "loans (rebuildHeap s) = loans s"
  by (simp add: rebuildHeap_def)

lemma inflationRate_rebuildHeap: "inflationRate (rebuildHeap s) = inflationRate s"
  by (simp add: rebuildHeap_def)

lemma displayLoop_rows:
  "Row n sc p d \<in> set (snd (displayLoop temp shown out))
     \<Longrightarrow> Row n sc p d \<in> set out \<or> 1 / 10 ^ 6 < p"
proof (induction temp shown out rule: displayLoop.induct)
  case (1 temp anyShown out)
  show ?case
  proof (cases "temp = []")
    case True
    with "1.prems" show ?thesis by (simp add: displayLoop.simps)
  next
    case False
    obtain score L where top: "pq_top temp = (score, L)" by (cases "pq_top temp")
    show ?thesis
    proof (cases "principal L \<le> 1 / 10 ^ 6")
      case True
      with False top "1.prems" have
        "Row n sc p d \<in> set (snd (displayLoop (pq_pop temp) anyShown out))"
        by (subst (asm) displayLoop.simps) simp
      with "1.IH"(1) [OF False refl top [symmetric] refl True] show ?thesis .
    next
      case settled: False
      with False top "1.prems" have
        "Row n sc p d \<in> set (snd (displayLoop (pq_pop temp) True
             (out @ [Row (name L) score (principal L) (daysUntilDue L)])))"
        by (subst (asm) displayLoop.simps) simp
      with "1.IH"(2) [OF False refl top [symmetric] refl settled]
      have "Row n sc p d \<in> set (out @ [Row (name L) score (principal L) (daysUntilDue L)])
              \<or> 1 / 10 ^ 6 < p" .
      with settled show ?thesis by auto
    qed
  qed
qed

lemma displayPriorities_rows:
  "Row n sc p d \<in> set (fst (displayPriorities s)) \<Longrightarrow> 1 / 10 ^ 6 < p"
proof (cases "loans s = []")
  case True
  assume "Row n sc p d \<in> set (fst (displayPriorities s))"
  with True show ?thesis by (simp add: displayPriorities_def)
next
  case False
  assume r: "Row n sc p d \<in> set (fst (displayPriorities s))"
  obtain shown rows where dl: "displayLoop (pq (rebuildHeap s)) False [] = (shown, rows)"
    by (cases "displayLoop (pq (rebuildHeap s)) False []")
  with False r have "Row n sc p d \<in> set rows"
    by (simp add: displayPriorities_def Let_def split: if_splits)
  with dl have "Row n sc p d \<in> set (snd (displayLoop (pq (rebuildHeap s)) False []))" by simp
  from displayLoop_rows [OF this] show ?thesis by simp
qed

text \<open>
  Claim C5. For a loan with \<open>principal \<le> 1e-6\<close> the score is the sentinel
  \<open>-1e15\<close>, whatever its other attributes and the inflation rate are, and no row that
  \<^verbatim>\<open>displayPriorities\<close> prints shows such a principal: a settled loan is never listed.
\<close>

theorem settled_sentinel_hidden:
  assumes "principal L \<le> 1 / 10 ^ 6"
  shows "computePriority L r = - (10 ^ 15)
         \<and> Row n sc (principal L) d \<notin> set (fst (displayPriorities s))"
proof
  from assms show "computePriority L r = - (10 ^ 15)" by (simp add: computePriority_def)
next
  show "Row n sc (principal L) d \<notin> set (fst (displayPriorities s))"
  proof
    assume "Row n sc (principal L) d \<in> set (fst (displayPriorities s))"
    then have "1 / 10 ^ 6 < principal L" by (rule displayPriorities_rows)
    with assms show False by simp
  qed
qed

theorem settled_sentinel_hidden_witness:
  "principal loanPaid \<le> 1 / 10 ^ 6
   \<and> computePriority loanPaid 0.05 = - (10 ^ 15)
   \<and> Row (name loanPaid) (computePriority loanPaid 0.05) (principal loanPaid)
        (daysUntilDue loanPaid) \<notin> set (fst (displayPriorities schedPaidB))"
proof -
  have h: "principal loanPaid \<le> 1 / 10 ^ 6" by (simp add: loanPaid_def Loan_ctor_def)
  from settled_sentinel_hidden [OF h, of "0.05" "name loanPaid" "computePriority loanPaid 0.05"
      "daysUntilDue loanPaid" schedPaidB] h
  show ?thesis by blast
qed

lemma loans_displayPriorities: "loans (snd (displayPriorities s)) = loans s"
  by (simp add: displayPriorities_def Let_def loans_rebuildHeap split: prod.splits)

lemma inflationRate_displayPriorities: "inflationRate (snd (displayPriorities s)) = inflationRate s"
  by (simp add: displayPriorities_def Let_def inflationRate_rebuildHeap split: prod.splits)

lemma loans_simulateDays:
  "days \<noteq> 0 \<Longrightarrow> loans (snd (simulateDays days s))
     = map (\<lambda>L. L\<lparr>daysUntilDue := daysUntilDue L - days\<rparr>) (loans s)"
  by (simp add: simulateDays_def Let_def case_prod_beta loans_displayPriorities loans_rebuildHeap)

lemma inflationRate_simulateDays:
  "inflationRate (snd (simulateDays days s)) = inflationRate s"
  by (simp add: simulateDays_def Let_def case_prod_beta inflationRate_displayPriorities inflationRate_rebuildHeap)

lemma sint_sub_in_range:
  fixes a b :: cint
  assumes "- (2 ^ 31) \<le> sint a - sint b" "sint a - sint b < 2 ^ 31"
  shows "sint (a - b) = sint a - sint b"
  using assms by (simp add: sint_word_diff signed_take_bit_int_eq_self)

text \<open>
  Claim C9. \<^verbatim>\<open>simulateDays(0)\<close> reports that no days were simulated and leaves the
  scheduler as it is. For every other \<open>days\<close>, of either sign, each loan's
  \<open>daysUntilDue\<close> has \<open>days\<close> subtracted and no other field of any loan changes.
  The subtraction is that of the machine integer; where the difference fits in 32 bits it
  is the difference of the signed numbers, which may be negative.
\<close>

theorem simulateDays_effect:
  "simulateDays 0 s = ([NoDaysSimulated], s)
   \<and> (days \<noteq> 0 \<longrightarrow>
        loans (snd (simulateDays days s))
          = map (\<lambda>L. L\<lparr>daysUntilDue := daysUntilDue L - days\<rparr>) (loans s)
        \<and> inflationRate (snd (simulateDays days s)) = inflationRate s
        \<and> hd (fst (simulateDays days s)) = Simulated days)
   \<and> (days \<noteq> 0
        \<and> list_all (\<lambda>L. - (2 ^ 31) \<le> sint (daysUntilDue L) - sint days
                       \<and> sint (daysUntilDue L) - sint days < 2 ^ 31) (loans s) \<longrightarrow>
        map (\<lambda>L. sint (daysUntilDue L)) (loans (snd (simulateDays days s)))
          = map (\<lambda>L. sint (daysUntilDue L) - sint days) (loans s))"
proof (intro conjI impI)
  show "simulateDays 0 s = ([NoDaysSimulated], s)" by (simp add: simulateDays_def)
next
  assume "days \<noteq> 0"
  then show "loans (snd (simulateDays days s))
          = map (\<lambda>L. L\<lparr>daysUntilDue := daysUntilDue L - days\<rparr>) (loans s)"
    by (rule loans_simulateDays)
next
  show "inflationRate (snd (simulateDays days s)) = inflationRate s"
    by (rule inflationRate_simulateDays)
next
  assume "days \<noteq> 0"
  then show "hd (fst (simulateDays days s)) = Simulated days"
    by (simp add: simulateDays_def Let_def case_prod_beta)
next
  assume a: "days \<noteq> 0
        \<and> list_all (\<lambda>L. - (2 ^ 31) \<le> sint (daysUntilDue L) - sint days
                       \<and> sint (daysUntilDue L) - sint days < 2 ^ 31) (loans s)"
  then have "\<forall>L \<in> set (loans s). sint (daysUntilDue L - days) = sint (daysUntilDue L) - sint days"
    by (auto simp: list_all_iff intro: sint_sub_in_range)
  with a show "map (\<lambda>L. sint (daysUntilDue L)) (loans (snd (simulateDays days s)))
          = map (\<lambda>L. sint (daysUntilDue L) - sint days) (loans s)"
    by (simp add: loans_simulateDays)
qed

theorem simulateDays_effect_witness:
  "simulateDays 0 schedA = ([NoDaysSimulated], schedA)
   \<and> (- 10 :: cint) \<noteq> 0
   \<and> loans (snd (simulateDays (- 10) schedA)) = [loanA\<lparr>daysUntilDue := 13\<rparr>]
   \<and> inflationRate (snd (simulateDays (- 10) schedA)) = inflationRate schedA
   \<and> hd (fst (simulateDays (- 10) schedA)) = Simulated (- 10)
   \<and> map (\<lambda>L. sint (daysUntilDue L)) (loans (snd (simulateDays (- 10) schedA))) = [13]"
proof -
  have l: "loans schedA = [loanA]"
    by (simp add: schedA_def addLoan_def AdaptiveScheduler_ctor_def)
  have d: "daysUntilDue loanA = 3" by (simp add: loanA_def Loan_ctor_def)
  have h1: "(- 10 :: cint) \<noteq> 0" by simp
  have h2: "list_all (\<lambda>L. - (2 ^ 31) \<le> sint (daysUntilDue L) - sint (- 10 :: cint)
               \<and> sint (daysUntilDue L) - sint (- 10 :: cint) < 2 ^ 31) (loans schedA)"
    by (simp add: l d)
  from simulateDays_effect [of schedA "- 10"] h1 h2 show ?thesis
    by (simp add: l d)
qed

section \<open>The allocation loop and its unrolling\<close>

lemma allocLoop_unroll:
  assumes "allocLoop amount s out = Some r"
  shows "\<exists>n. allocAfter n amount s out = r \<and> \<not> (0 < fst r \<and> pq (fst (snd r)) \<noteq> [])"
proof (rule allocLoop.raw_induct
    [where P = "\<lambda>amount s out r. \<exists>n. allocAfter n amount s out = r
                  \<and> \<not> (0 < fst r \<and> pq (fst (snd r)) \<noteq> [])", OF _ assms])
  fix loop amount s out r
  assume IH: "\<And>amount s out r. loop amount s out = Some r \<Longrightarrow>
                \<exists>n. allocAfter n amount s out = r \<and> \<not> (0 < fst r \<and> pq (fst (snd r)) \<noteq> [])"
    and eq: "(if 0 < amount \<and> pq s \<noteq> []
              then case allocBody amount s of
                     (amount', s', line) \<Rightarrow> loop amount' s' (out @ [line])
              else Some (amount, s, out)) = Some r"
  show "\<exists>n. allocAfter n amount s out = r \<and> \<not> (0 < fst r \<and> pq (fst (snd r)) \<noteq> [])"
  proof (cases "0 < amount \<and> pq s \<noteq> []")
    case True
    obtain amount' s' line where b: "allocBody amount s = (amount', s', line)"
      by (cases "allocBody amount s")
    with True eq have "loop amount' s' (out @ [line]) = Some r" by simp
    from IH [OF this] obtain n where
      n: "allocAfter n amount' s' (out @ [line]) = r"
      and stop: "\<not> (0 < fst r \<and> pq (fst (snd r)) \<noteq> [])"
      by blast
    from n True b have "allocAfter (Suc n) amount s out = r" by simp
    with stop show ?thesis by blast
  next
    case False
    with eq have "r = (amount, s, out)" by auto
    with False have "allocAfter 0 amount s out = r \<and> \<not> (0 < fst r \<and> pq (fst (snd r)) \<noteq> [])"
      by simp
    then show ?thesis by blast
  qed
qed

lemma allocLoop_returns:
  "allocAfter n amount s out = r \<Longrightarrow> \<not> (0 < fst r \<and> pq (fst (snd r)) \<noteq> [])
     \<Longrightarrow> allocLoop amount s out = Some r"
proof (induction n arbitrary: amount s out)
  case 0
  then show ?case by (subst allocLoop.simps) auto
next
  case (Suc n)
  show ?case
  proof (cases "0 < amount \<and> pq s \<noteq> []")
    case True
    obtain amount' s' line where b: "allocBody amount s = (amount', s', line)"
      by (cases "allocBody amount s")
    with True Suc.prems(1) have "allocAfter n amount' s' (out @ [line]) = r" by simp
    from Suc.IH [OF this Suc.prems(2)] True b show ?thesis
      by (subst allocLoop.simps) simp
  next
    case False
    with Suc.prems show ?thesis by (subst allocLoop.simps) auto
  qed
qed

lemma allocLoop_diverges:
  assumes "\<And>n. 0 < fst (allocAfter n amount s out) \<and> pq (fst (snd (allocAfter n amount s out))) \<noteq> []"
  shows "allocLoop amount s out = None"
proof (cases "allocLoop amount s out")
  case None
  then show ?thesis .
next
  case (Some r)
  from allocLoop_unroll [OF this] assms show ?thesis by blast
qed

lemma inSync_rebuildHeap: "inSync (rebuildHeap s)"
  by (simp add: inSync_def pq_rebuildHeap loans_rebuildHeap inflationRate_rebuildHeap)

lemma allocBody_unfold:
  "allocBody amount s =
     (amount - min amount (principal (snd (pq_top (pq s)))),
      rebuildHeap (s\<lparr>pq := pq_pop (pq s),
                     loans := updateMaster (loans s) (idL (snd (pq_top (pq s))))
                        (principal (snd (pq_top (pq s)))
                           - min amount (principal (snd (pq_top (pq s)))))\<rparr>),
      Paid (min amount (principal (snd (pq_top (pq s)))))
           (name (snd (pq_top (pq s))))
           (principal (snd (pq_top (pq s))) - min amount (principal (snd (pq_top (pq s))))))"
  by (simp add: allocBody_def Let_def case_prod_beta)

lemma inSync_allocBody: "inSync (fst (snd (allocBody amount s)))"
  by (simp add: allocBody_unfold inSync_rebuildHeap)

lemma loans_allocBody:
  "loans (fst (snd (allocBody amount s)))
     = updateMaster (loans s) (idL (snd (pq_top (pq s))))
         (principal (snd (pq_top (pq s))) - min amount (principal (snd (pq_top (pq s)))))"
  by (simp add: allocBody_unfold loans_rebuildHeap)

lemma pq_top_loan:
  assumes "inSync s" "pq s \<noteq> []"
  shows "snd (pq_top (pq s)) \<in> set (loans s)"
proof -
  from assms(2) have "pq_top (pq s) \<in> set (pq s)" by (rule pq_top_in)
  with assms(1) show ?thesis by (auto simp: inSync_def)
qed

lemma updateMaster_nonneg:
  "list_all (\<lambda>L. 0 \<le> principal L) xs \<Longrightarrow> 0 \<le> p
     \<Longrightarrow> list_all (\<lambda>L. 0 \<le> principal L) (updateMaster xs i p)"
  by (induction xs) simp_all

lemma nonneg_allocBody:
  assumes "inSync s" "pq s \<noteq> []" "list_all (\<lambda>L. 0 \<le> principal L) (loans s)"
  shows "list_all (\<lambda>L. 0 \<le> principal L) (loans (fst (snd (allocBody amount s))))"
proof -
  have "0 \<le> principal (snd (pq_top (pq s))) - min amount (principal (snd (pq_top (pq s))))"
    by simp
  with assms(3) show ?thesis
    by (simp only: loans_allocBody updateMaster_nonneg)
qed

lemma allocAfter_inv:
  "inSync s \<Longrightarrow> list_all (\<lambda>L. 0 \<le> principal L) (loans s)
     \<Longrightarrow> inSync (fst (snd (allocAfter n amount s out)))
         \<and> list_all (\<lambda>L. 0 \<le> principal L) (loans (fst (snd (allocAfter n amount s out))))"
proof (induction n arbitrary: amount s out)
  case 0
  then show ?case by simp
next
  case (Suc n)
  show ?case
  proof (cases "0 < amount \<and> pq s \<noteq> []")
    case True
    obtain amount' s' line where b: "allocBody amount s = (amount', s', line)"
      by (cases "allocBody amount s")
    from b have s': "s' = fst (snd (allocBody amount s))" by simp
    have "inSync s'" unfolding s' by (rule inSync_allocBody)
    moreover from True Suc.prems have "list_all (\<lambda>L. 0 \<le> principal L) (loans s')"
      unfolding s' by (simp add: nonneg_allocBody)
    ultimately show ?thesis using Suc.IH [of s' amount' "out @ [line]"] True b by simp
  next
    case False
    with Suc.prems show ?thesis by auto
  qed
qed

lemma allocAfter_conserves:
  "totalPaid (snd (snd (allocAfter n amount s out))) + fst (allocAfter n amount s out)
     = totalPaid out + amount"
proof (induction n arbitrary: amount s out)
  case 0
  then show ?case by simp
next
  case (Suc n)
  show ?case
  proof (cases "0 < amount \<and> pq s \<noteq> []")
    case True
    let ?pay = "min amount (principal (snd (pq_top (pq s))))"
    obtain amount' s' line where b: "allocBody amount s = (amount', s', line)"
      by (cases "allocBody amount s")
    then have "amount' = amount - ?pay" "paidAmount line = ?pay"
      by (auto simp: allocBody_unfold)
    then have "totalPaid (out @ [line]) + amount' = totalPaid out + amount"
      by (simp add: totalPaid_def)
    with Suc.IH [of amount' s' "out @ [line]"] True b show ?thesis by simp
  next
    case False
    then show ?thesis by auto
  qed
qed

lemma allocAfter_amount_nonneg:
  "0 \<le> amount \<Longrightarrow> 0 \<le> fst (allocAfter n amount s out)"
proof (induction n arbitrary: amount s out)
  case 0
  then show ?case by simp
next
  case (Suc n)
  show ?case
  proof (cases "0 < amount \<and> pq s \<noteq> []")
    case True
    obtain amount' s' line where b: "allocBody amount s = (amount', s', line)"
      by (cases "allocBody amount s")
    then have "amount' = amount - min amount (principal (snd (pq_top (pq s))))"
      by (auto simp: allocBody_unfold)
    then have "0 \<le> amount'" by simp
    from Suc.IH [OF this, of s' "out @ [line]"] True b show ?thesis by simp
  next
    case False
    with Suc.prems show ?thesis by auto
  qed
qed

lemma allocAfter_leftover:
  "reportedLeftover (snd (snd (allocAfter n amount s out))) = reportedLeftover out"
proof (induction n arbitrary: amount s out)
  case 0
  then show ?case by simp
next
  case (Suc n)
  show ?case
  proof (cases "0 < amount \<and> pq s \<noteq> []")
    case True
    obtain amount' s' line where b: "allocBody amount s = (amount', s', line)"
      by (cases "allocBody amount s")
    then have "leftoverAmount line = 0" by (auto simp: allocBody_unfold)
    then have "reportedLeftover (out @ [line]) = reportedLeftover out"
      by (simp add: reportedLeftover_def)
    with Suc.IH [of amount' s' "out @ [line]"] True b show ?thesis by simp
  next
    case False
    then show ?thesis by auto
  qed
qed

lemma displayLoop_sums:
  "sum_list (map paidAmount (snd (displayLoop temp shown out))) = sum_list (map paidAmount out)
   \<and> sum_list (map leftoverAmount (snd (displayLoop temp shown out)))
       = sum_list (map leftoverAmount out)"
proof (induction temp shown out rule: displayLoop.induct)
  case (1 temp anyShown out)
  show ?case
  proof (cases "temp = []")
    case True
    then show ?thesis by (simp add: displayLoop.simps)
  next
    case False
    obtain score L where top: "pq_top temp = (score, L)" by (cases "pq_top temp")
    show ?thesis
    proof (cases "principal L \<le> 1 / 10 ^ 6")
      case True
      with False top have "displayLoop temp anyShown out = displayLoop (pq_pop temp) anyShown out"
        by (subst displayLoop.simps) simp
      with "1.IH"(1) [OF False refl top [symmetric] refl True] show ?thesis by simp
    next
      case active: False
      with False top have "displayLoop temp anyShown out
          = displayLoop (pq_pop temp) True
              (out @ [Row (name L) score (principal L) (daysUntilDue L)])"
        by (subst displayLoop.simps) simp
      with "1.IH"(2) [OF False refl top [symmetric] refl active] show ?thesis by simp
    qed
  qed
qed

lemma displayPriorities_sums:
  "totalPaid (fst (displayPriorities s)) = 0 \<and> reportedLeftover (fst (displayPriorities s)) = 0"
proof (cases "loans s = []")
  case True
  then show ?thesis by (simp add: displayPriorities_def totalPaid_def reportedLeftover_def)
next
  case False
  with displayLoop_sums [of "pq (rebuildHeap s)" False "[]"] show ?thesis
    by (simp add: displayPriorities_def totalPaid_def reportedLeftover_def Let_def case_prod_beta)
qed

section \<open>A payment above the total owed never returns\<close>

lemma updateMaster_ids: "map idL (updateMaster xs i p) = map idL xs"
  by (induction xs) simp_all

lemma updateMaster_sum:
  "distinct (map idL xs) \<Longrightarrow> L \<in> set xs
     \<Longrightarrow> sum_list (map principal (updateMaster xs (idL L) p))
         = sum_list (map principal xs) - principal L + p"
proof (induction xs)
  case Nil
  then show ?case by simp
next
  case (Cons x xs)
  show ?case
  proof (cases "idL x = idL L")
    case True
    have "x = L"
    proof (rule ccontr)
      assume "x \<noteq> L"
      with Cons.prems(2) have "L \<in> set xs" by simp
      then have "idL L \<in> set (map idL xs)" by simp
      with True Cons.prems(1) show False by simp
    qed
    with True show ?thesis by simp
  next
    case False
    with Cons.prems have "L \<in> set xs" by auto
    with Cons.IH Cons.prems(1) False show ?thesis by simp
  qed
qed

lemma principal_le_sum:
  "list_all (\<lambda>L. 0 \<le> principal L) xs \<Longrightarrow> L \<in> set xs
     \<Longrightarrow> principal L \<le> sum_list (map principal xs)"
proof (induction xs)
  case Nil
  then show ?case by simp
next
  case (Cons x xs)
  have nn: "0 \<le> sum_list (map principal xs)"
    using Cons.prems(1) by (auto intro!: sum_list_nonneg simp: list_all_iff)
  show ?case
  proof (cases "L = x")
    case True
    with nn show ?thesis by simp
  next
    case False
    with Cons.prems have "L \<in> set xs" by simp
    with Cons.IH Cons.prems(1) have "principal L \<le> sum_list (map principal xs)" by simp
    with Cons.prems(1) show ?thesis by simp
  qed
qed

lemma overpaid_cond: "overpaid amount s \<Longrightarrow> 0 < amount \<and> pq s \<noteq> []"
proof -
  assume o: "overpaid amount s"
  then have "0 \<le> sum_list (map principal (loans s))"
    by (auto intro!: sum_list_nonneg simp: overpaid_def list_all_iff)
  with o show ?thesis by (auto simp: overpaid_def inSync_def)
qed

lemma overpaid_allocBody:
  assumes o: "overpaid amount s"
  shows "overpaid (fst (allocBody amount s)) (fst (snd (allocBody amount s)))"
proof -
  let ?L = "snd (pq_top (pq s))"
  from o have sync: "inSync s" and ne: "pq s \<noteq> []"
    and dist: "distinct (map idL (loans s))"
    and nn: "list_all (\<lambda>L. 0 \<le> principal L) (loans s)"
    and lt: "sum_list (map principal (loans s)) < amount"
    using overpaid_cond [of amount s] by (simp_all add: overpaid_def)
  from sync ne have mem: "?L \<in> set (loans s)" by (rule pq_top_loan)
  from nn mem have le: "principal ?L \<le> sum_list (map principal (loans s))"
    by (rule principal_le_sum)
  with lt have pay: "min amount (principal ?L) = principal ?L" by simp
  have a': "fst (allocBody amount s) = amount - principal ?L"
    by (simp add: allocBody_unfold pay)
  have l': "loans (fst (snd (allocBody amount s))) = updateMaster (loans s) (idL ?L) 0"
    by (simp add: loans_allocBody pay)
  have ids: "map idL (loans (fst (snd (allocBody amount s)))) = map idL (loans s)"
    by (simp add: l' updateMaster_ids)
  from o have "map idL (loans s) \<noteq> []" by (simp add: overpaid_def)
  with ids have ne': "loans (fst (snd (allocBody amount s))) \<noteq> []" by auto
  have sum': "sum_list (map principal (loans (fst (snd (allocBody amount s)))))
                = sum_list (map principal (loans s)) - principal ?L"
    using updateMaster_sum [OF dist mem, of 0] by (simp add: l')
  from nn have nn': "list_all (\<lambda>L. 0 \<le> principal L) (loans (fst (snd (allocBody amount s))))"
    by (simp add: l' updateMaster_nonneg)
  from lt sum' a' ne' nn' ids dist show ?thesis
    by (simp add: overpaid_def inSync_allocBody)
qed

lemma overpaid_allocAfter:
  "overpaid amount s
     \<Longrightarrow> overpaid (fst (allocAfter n amount s out)) (fst (snd (allocAfter n amount s out)))"
proof (induction n arbitrary: amount s out)
  case 0
  then show ?case by simp
next
  case (Suc n)
  from Suc.prems have c: "0 < amount \<and> pq s \<noteq> []" by (rule overpaid_cond)
  obtain amount' s' line where b: "allocBody amount s = (amount', s', line)"
    by (cases "allocBody amount s")
  with overpaid_allocBody [OF Suc.prems] have "overpaid amount' s'" by simp
  from Suc.IH [OF this, of "out @ [line]"] c b show ?case by simp
qed

lemma overpaid_never_returns:
  assumes "overpaid amount s"
  shows "allocLoop amount s out = None"
proof (rule allocLoop_diverges)
  fix n
  from assms have "overpaid (fst (allocAfter n amount s out)) (fst (snd (allocAfter n amount s out)))"
    by (rule overpaid_allocAfter)
  then show "0 < fst (allocAfter n amount s out) \<and> pq (fst (snd (allocAfter n amount s out))) \<noteq> []"
    by (rule overpaid_cond)
qed

lemma overpayment_never_returns:
  assumes "loans s \<noteq> []" "distinct (map idL (loans s))"
    "list_all (\<lambda>L. 0 \<le> principal L) (loans s)"
    "sum_list (map principal (loans s)) < amount"
  shows "allocatePayment amount s = None"
proof -
  from assms(3) have "0 \<le> sum_list (map principal (loans s))"
    by (auto intro!: sum_list_nonneg simp: list_all_iff)
  with assms(4) have pos: "0 < amount" by simp
  from assms have "overpaid amount (rebuildHeap s)"
    by (simp add: overpaid_def inSync_rebuildHeap loans_rebuildHeap)
  then have "allocLoop amount (rebuildHeap s) [Allocating amount] = None"
    by (rule overpaid_never_returns)
  with assms(1) pos show ?thesis by (simp add: allocatePayment_def)
qed

section \<open>What a returning allocation guarantees\<close>

lemma displayLoop_settled:
  "list_all (\<lambda>x. principal (snd x) \<le> 1 / 10 ^ 6) temp
     \<Longrightarrow> displayLoop temp shown out = (shown, out)"
proof (induction temp shown out rule: displayLoop.induct)
  case (1 temp anyShown out)
  show ?case
  proof (cases "temp = []")
    case True
    then show ?thesis by (simp add: displayLoop.simps)
  next
    case False
    obtain score L where top: "pq_top temp = (score, L)" by (cases "pq_top temp")
    from False have "pq_top temp \<in> set temp" by (rule pq_top_in)
    with "1.prems" top have settled: "principal L \<le> 1 / 10 ^ 6"
      by (auto simp: list_all_iff)
    from "1.prems" set_pq_pop [of temp]
    have rest: "list_all (\<lambda>x. principal (snd x) \<le> 1 / 10 ^ 6) (pq_pop temp)"
      by (auto simp: list_all_iff)
    from False top settled
    have "displayLoop temp anyShown out = displayLoop (pq_pop temp) anyShown out"
      by (subst displayLoop.simps) simp
    with "1.IH"(1) [OF False refl top [symmetric] refl settled rest] show ?thesis by simp
  qed
qed

lemma displayPriorities_all_settled:
  assumes "loans s \<noteq> []" "list_all (\<lambda>L. principal L \<le> 1 / 10 ^ 6) (loans s)"
  shows "fst (displayPriorities s) = [PrioritiesHeader, AllRepaid]"
proof -
  from assms(2) have "list_all (\<lambda>x. principal (snd x) \<le> 1 / 10 ^ 6) (pq (rebuildHeap s))"
    by (simp add: pq_rebuildHeap list_all_iff)
  then have "displayLoop (pq (rebuildHeap s)) False [] = (False, [])"
    by (rule displayLoop_settled)
  with assms(1) show ?thesis by (simp add: displayPriorities_def Let_def)
qed

lemma allocatePayment_conserves:
  assumes ne: "loans s \<noteq> []" and amt: "0 \<le> amount"
    and ret: "allocatePayment amount s = Some (out, s')"
  shows "totalPaid out + reportedLeftover out = amount"
proof (cases "amount \<le> 0")
  case True
  with ne ret amt show ?thesis
    by (auto simp: allocatePayment_def totalPaid_def reportedLeftover_def)
next
  case False
  with ne ret obtain r where
    loop: "allocLoop amount (rebuildHeap s) [Allocating amount] = Some r"
    by (auto simp: allocatePayment_def split: option.splits)
  obtain amount' s1 out1 where r: "r = (amount', s1, out1)" by (cases r)
  from allocLoop_unroll [OF loop] obtain n where
    n: "allocAfter n amount (rebuildHeap s) [Allocating amount] = r" by blast
  from allocAfter_conserves [of n amount "rebuildHeap s" "[Allocating amount]"] n r
  have paid: "totalPaid out1 + amount' = amount" by (simp add: totalPaid_def)
  from allocAfter_leftover [of n amount "rebuildHeap s" "[Allocating amount]"] n r
  have left: "reportedLeftover out1 = 0" by (simp add: reportedLeftover_def)
  from allocAfter_amount_nonneg [OF amt, of n "rebuildHeap s" "[Allocating amount]"] n r
  have nn: "0 \<le> amount'" by simp
  from ne False ret loop r
  have out: "out = (if 0 < amount' then out1 @ [LeftoverCash amount'] else out1)
                     @ fst (displayPriorities s1)"
    by (auto simp: allocatePayment_def Let_def case_prod_beta)
  have split: "totalPaid (xs @ ys) = totalPaid xs + totalPaid ys"
    "reportedLeftover (xs @ ys) = reportedLeftover xs + reportedLeftover ys" for xs ys
    by (simp_all add: totalPaid_def reportedLeftover_def)
  have one: "totalPaid (e # xs) = paidAmount e + totalPaid xs"
    "reportedLeftover (e # xs) = leftoverAmount e + reportedLeftover xs" for e xs
    by (simp_all add: totalPaid_def reportedLeftover_def)
  from paid left nn displayPriorities_sums [of s1] show ?thesis
    unfolding out by (cases "0 < amount'") (simp_all add: split one)
qed

text \<open>
  Claim C8. When every principal is at least 0, it is still at least 0 after any number
  of passes of the allocation loop, and in the scheduler that \<^verbatim>\<open>allocatePayment\<close>
  leaves behind when it returns.
\<close>

theorem allocatePayment_principal_nonneg:
  assumes "list_all (\<lambda>L. 0 \<le> principal L) (loans s)"
  shows "list_all (\<lambda>L. 0 \<le> principal L)
           (loans (fst (snd (allocAfter n amount (rebuildHeap s) out))))
         \<and> (allocatePayment amount s = Some (out', s')
              \<longrightarrow> list_all (\<lambda>L. 0 \<le> principal L) (loans s'))"
proof (intro conjI impI)
  from assms have start: "list_all (\<lambda>L. 0 \<le> principal L) (loans (rebuildHeap s))"
    by (simp add: loans_rebuildHeap)
  from allocAfter_inv [OF inSync_rebuildHeap start]
  show "list_all (\<lambda>L. 0 \<le> principal L)
          (loans (fst (snd (allocAfter n amount (rebuildHeap s) out))))"
    by blast
  assume ret: "allocatePayment amount s = Some (out', s')"
  show "list_all (\<lambda>L. 0 \<le> principal L) (loans s')"
  proof (cases "loans s = [] \<or> amount \<le> 0")
    case True
    with ret have "s' = s" by (auto simp: allocatePayment_def split: if_splits)
    with assms show ?thesis by simp
  next
    case False
    with ret obtain r where
      loop: "allocLoop amount (rebuildHeap s) [Allocating amount] = Some r"
      by (auto simp: allocatePayment_def split: option.splits)
    from allocLoop_unroll [OF loop] obtain k where
      k: "allocAfter k amount (rebuildHeap s) [Allocating amount] = r" by blast
    from allocAfter_inv [OF inSync_rebuildHeap start, of k amount "[Allocating amount]"] k
    have "list_all (\<lambda>L. 0 \<le> principal L) (loans (fst (snd r)))" by simp
    moreover from False ret loop have "s' = snd (displayPriorities (fst (snd r)))"
      by (auto simp: allocatePayment_def Let_def case_prod_beta)
    ultimately show ?thesis by (simp add: loans_displayPriorities)
  qed
qed

lemma allocLoop_single_pass:
  assumes "0 < amount" "pq s \<noteq> []" "amount \<le> principal (snd (pq_top (pq s)))"
  shows "allocLoop amount s out
           = Some (0, fst (snd (allocBody amount s)), out @ [snd (snd (allocBody amount s))])"
proof (rule allocLoop_returns [of "Suc 0"])
  from assms(3) have "fst (allocBody amount s) = 0" by (simp add: allocBody_unfold)
  with assms(1,2)
  show "allocAfter (Suc 0) amount s out
          = (0, fst (snd (allocBody amount s)), out @ [snd (snd (allocBody amount s))])"
    by (simp add: case_prod_beta)
next
  show "\<not> (0 < fst (0::real, fst (snd (allocBody amount s)), out @ [snd (snd (allocBody amount s))])
           \<and> pq (fst (snd (0::real, fst (snd (allocBody amount s)),
                 out @ [snd (snd (allocBody amount s))]))) \<noteq> [])"
    by simp
qed

lemma schedC_pay_30: "\<exists>out s'. allocatePayment 30 schedC = Some (out, s')"
proof -
  have q: "pq (rebuildHeap schedC) = [(computePriority loanC 0.05, loanC)]"
    by (simp add: pq_rebuildHeap schedC_def addLoan_def AdaptiveScheduler_ctor_def)
  then have top: "pq_top (pq (rebuildHeap schedC)) = (computePriority loanC 0.05, loanC)"
    by (simp add: pq_top_def)
  have ne: "pq (rebuildHeap schedC) \<noteq> []" by (simp add: q)
  have le: "30 \<le> principal (snd (pq_top (pq (rebuildHeap schedC))))"
    unfolding top by (simp add: loanC_def Loan_ctor_def)
  have "allocLoop 30 (rebuildHeap schedC) [Allocating 30]
          = Some (0, fst (snd (allocBody 30 (rebuildHeap schedC))),
                  [Allocating 30] @ [snd (snd (allocBody 30 (rebuildHeap schedC)))])"
    using _ ne le by (rule allocLoop_single_pass) simp
  moreover have "loans schedC \<noteq> []"
    by (simp add: schedC_def addLoan_def)
  ultimately show ?thesis
    by (simp add: allocatePayment_def Let_def case_prod_beta)
qed

theorem allocatePayment_principal_nonneg_witness:
  "list_all (\<lambda>L. 0 \<le> principal L) (loans schedC)
   \<and> list_all (\<lambda>L. 0 \<le> principal L)
       (loans (fst (snd (allocAfter 3 30 (rebuildHeap schedC) []))))
   \<and> (\<exists>out s'. allocatePayment 30 schedC = Some (out, s')
         \<and> list_all (\<lambda>L. 0 \<le> principal L) (loans s'))"
proof -
  have h: "list_all (\<lambda>L. 0 \<le> principal L) (loans schedC)"
    by (simp add: schedC_def addLoan_def AdaptiveScheduler_ctor_def loanC_def Loan_ctor_def)
  from schedC_pay_30 obtain out s' where r: "allocatePayment 30 schedC = Some (out, s')"
    by blast
  from allocatePayment_principal_nonneg [OF h, of 3 30 "[]" out s'] r h show ?thesis
    by blast
qed

section \<open>Runs that do not return\<close>

lemma updateMaster_same:
  "list_all (\<lambda>L. principal L = p) xs \<Longrightarrow> updateMaster xs i p = xs"
  by (induction xs) simp_all

lemma rebuildHeap_eq:
  "rebuildHeap s = \<lparr>loans = loans s, inflationRate = inflationRate s,
       pq = map (\<lambda>L. (computePriority L (inflationRate s), L)) (loans s)\<rparr>"
  by (simp add: rebuildHeap_def pq_clear_empty foldl_push)

lemma pq_top_single: "pq_top [x] = x"
  by (simp add: pq_top_def)

lemma computePriority_settled: "principal L \<le> 1 / 10 ^ 6 \<Longrightarrow> computePriority L r = - (10 ^ 15)"
  by (simp add: computePriority_def)

lemma allocBody_all_zero:
  assumes sync: "inSync s" and ne: "pq s \<noteq> []"
    and zero: "list_all (\<lambda>L. principal L = 0) (loans s)" and pos: "0 < amount"
  shows "allocBody amount s = (amount, s, Paid 0 (name (snd (pq_top (pq s)))) 0)"
proof -
  let ?L = "snd (pq_top (pq s))"
  from sync ne have "?L \<in> set (loans s)" by (rule pq_top_loan)
  with zero have p: "principal ?L = 0" by (simp add: list_all_iff)
  from pos have pay: "min amount 0 = 0" by simp
  from zero have same: "updateMaster (loans s) (idL ?L) 0 = loans s"
    by (rule updateMaster_same)
  from sync have restored: "rebuildHeap (s\<lparr>pq := pq_pop (pq s), loans := loans s\<rparr>) = s"
    by (simp add: rebuildHeap_eq inSync_def)
  have "allocBody amount s
          = (amount - 0, rebuildHeap (s\<lparr>pq := pq_pop (pq s),
               loans := updateMaster (loans s) (idL ?L) (0 - 0)\<rparr>), Paid 0 (name ?L) (0 - 0))"
    by (subst allocBody_unfold) (simp only: pay p)
  also have "\<dots> = (amount, s, Paid 0 (name ?L) 0)"
    by (simp only: diff_zero same restored)
  finally show ?thesis .
qed

lemma allocAfter_all_zero:
  assumes sync: "inSync s" and ne: "pq s \<noteq> []"
    and zero: "list_all (\<lambda>L. principal L = 0) (loans s)" and pos: "0 < amount"
  shows "allocAfter n amount s out
           = (amount, s, out @ replicate n (Paid 0 (name (snd (pq_top (pq s)))) 0))"
proof (induction n arbitrary: out)
  case 0
  then show ?case by simp
next
  case (Suc n)
  from ne pos allocBody_all_zero [OF sync ne zero pos] Suc.IH show ?case
    by (simp add: replicate_app_Cons_same)
qed

lemma schedC_first_pass:
  "allocBody 200 (rebuildHeap schedC)
     = (100, \<lparr>loans = [loanC\<lparr>principal := 0\<rparr>], inflationRate = 0.05,
               pq = [(- (10 ^ 15), loanC\<lparr>principal := 0\<rparr>)]\<rparr>, Paid 100 ''C'' 0)"
proof -
  have l: "loans schedC = [loanC]" "inflationRate schedC = 0.05"
    by (simp_all add: schedC_def addLoan_def AdaptiveScheduler_ctor_def)
  have p: "principal loanC = 100" "name loanC = ''C''"
    by (simp_all add: loanC_def Loan_ctor_def)
  have paid: "computePriority (loanC\<lparr>principal := 0\<rparr>) r = - (10 ^ 15)" for r
    by (rule computePriority_settled) simp
  show ?thesis
    by (simp add: allocBody_unfold rebuildHeap_eq l pq_top_single p paid)
qed

text \<open>
  Claim C1 says that the allocation loop stops once every loan is settled and reports
  the remaining amount as leftover. The code does not: the queue is rebuilt from all
  loans, settled ones included, on every pass, so it is never empty. With one loan of
  principal 100 and a payment of 200, the first pass pays 100; after any further number
  of passes 100 remains, the only loan is settled, each pass has paid 0, and the call
  does not return.
\<close>

theorem overpayment_hangs:
  "loans schedC \<noteq> []
   \<and> allocatePayment 200 schedC = None
   \<and> fst (allocAfter (Suc n) 200 (rebuildHeap schedC) [Allocating 200]) = 100
   \<and> list_all (\<lambda>L. principal L \<le> 1 / 10 ^ 6)
        (loans (fst (snd (allocAfter (Suc n) 200 (rebuildHeap schedC) [Allocating 200]))))
   \<and> snd (snd (allocAfter (Suc n) 200 (rebuildHeap schedC) [Allocating 200]))
       = [Allocating 200, Paid 100 ''C'' 0] @ replicate n (Paid 0 ''C'' 0)"
proof -
  let ?s1 = "\<lparr>loans = [loanC\<lparr>principal := 0\<rparr>], inflationRate = 0.05,
               pq = [(- (10 ^ 15), loanC\<lparr>principal := 0\<rparr>)]\<rparr>"
  have ne: "loans schedC \<noteq> []" by (simp add: schedC_def addLoan_def)
  have none: "allocatePayment 200 schedC = None"
    by (rule overpayment_never_returns)
      (simp_all add: schedC_def addLoan_def AdaptiveScheduler_ctor_def loanC_def Loan_ctor_def)
  have q: "pq (rebuildHeap schedC) \<noteq> []"
    by (simp add: pq_rebuildHeap schedC_def addLoan_def)
  have sync: "inSync ?s1" by (simp add: inSync_def computePriority_settled)
  have top: "name (snd (pq_top (pq ?s1))) = ''C''"
    by (simp add: pq_top_single loanC_def Loan_ctor_def)
  have first: "allocAfter (Suc n) 200 (rebuildHeap schedC) [Allocating 200]
          = allocAfter n 100 ?s1 [Allocating 200, Paid 100 ''C'' 0]"
    using q by (simp add: schedC_first_pass)
  have "allocAfter n 100 ?s1 [Allocating 200, Paid 100 ''C'' 0]
          = (100, ?s1, [Allocating 200, Paid 100 ''C'' 0]
               @ replicate n (Paid 0 (name (snd (pq_top (pq ?s1)))) 0))"
    by (rule allocAfter_all_zero [OF sync]) simp_all
  then have "allocAfter (Suc n) 200 (rebuildHeap schedC) [Allocating 200]
          = (100, ?s1, [Allocating 200, Paid 100 ''C'' 0] @ replicate n (Paid 0 ''C'' 0))"
    by (simp only: first top)
  with ne none show ?thesis by simp
qed

lemma overpaid_gap_allocBody:
  assumes o: "overpaid amount s"
  shows "fst (allocBody amount s)
           - sum_list (map principal (loans (fst (snd (allocBody amount s)))))
         = amount - sum_list (map principal (loans s))"
proof -
  let ?L = "snd (pq_top (pq s))"
  from o have sync: "inSync s" and ne: "pq s \<noteq> []"
    and dist: "distinct (map idL (loans s))"
    and nn: "list_all (\<lambda>L. 0 \<le> principal L) (loans s)"
    and lt: "sum_list (map principal (loans s)) < amount"
    using overpaid_cond [of amount s] by (simp_all add: overpaid_def)
  from sync ne have mem: "?L \<in> set (loans s)" by (rule pq_top_loan)
  from nn mem have "principal ?L \<le> sum_list (map principal (loans s))"
    by (rule principal_le_sum)
  with lt have pay: "min amount (principal ?L) = principal ?L" by simp
  have "fst (allocBody amount s) = amount - principal ?L"
    by (simp add: allocBody_unfold pay)
  moreover have "sum_list (map principal (loans (fst (snd (allocBody amount s)))))
                = sum_list (map principal (loans s)) - principal ?L"
    using updateMaster_sum [OF dist mem, of 0] by (simp add: loans_allocBody pay)
  ultimately show ?thesis by simp
qed

lemma overpaid_gap_allocAfter:
  "overpaid amount s
     \<Longrightarrow> fst (allocAfter n amount s out)
           - sum_list (map principal (loans (fst (snd (allocAfter n amount s out)))))
         = amount - sum_list (map principal (loans s))"
proof (induction n arbitrary: amount s out)
  case 0
  then show ?case by simp
next
  case (Suc n)
  from Suc.prems have c: "0 < amount \<and> pq s \<noteq> []" by (rule overpaid_cond)
  obtain amount' s' line where b: "allocBody amount s = (amount', s', line)"
    by (cases "allocBody amount s")
  with overpaid_allocBody [OF Suc.prems] have o': "overpaid amount' s'" by simp
  from overpaid_gap_allocBody [OF Suc.prems] b
  have "amount' - sum_list (map principal (loans s'))
          = amount - sum_list (map principal (loans s))" by simp
  with Suc.IH [OF o', of "out @ [line]"] c b show ?case by simp
qed

text \<open>
  Claim C2 says that the amounts paid plus the reported leftover equal the amount given.
  With loans of principal 100 and 50 and a payment of 200, no number of passes pays more
  than 150, at least 50 remains in hand throughout, and the call does not return, so the
  leftover is never reported.
\<close>

theorem overpayment_leftover_never_reported:
  "loans schedCD \<noteq> []
   \<and> allocatePayment 200 schedCD = None
   \<and> totalPaid (snd (snd (allocAfter n 200 (rebuildHeap schedCD) []))) \<le> 150
   \<and> 50 \<le> fst (allocAfter n 200 (rebuildHeap schedCD) [])"
proof -
  let ?r = "allocAfter n 200 (rebuildHeap schedCD) []"
  have l: "loans schedCD = [loanC, loanD]"
    by (simp add: schedCD_def addLoan_def AdaptiveScheduler_ctor_def)
  have f: "principal loanC = 100" "principal loanD = 50" "idL loanC = 1" "idL loanD = 2"
    by (simp_all add: loanC_def loanD_def Loan_ctor_def)
  have none: "allocatePayment 200 schedCD = None"
    by (rule overpayment_never_returns) (simp_all add: l f)
  have o: "overpaid 200 (rebuildHeap schedCD)"
    by (simp add: overpaid_def inSync_rebuildHeap loans_rebuildHeap l f)
  from overpaid_gap_allocAfter [OF o, of n "[]"]
  have gap: "fst ?r - sum_list (map principal (loans (fst (snd ?r)))) = 50"
    by (simp add: loans_rebuildHeap l f)
  from overpaid_allocAfter [OF o, of n "[]"]
  have "0 \<le> sum_list (map principal (loans (fst (snd ?r))))"
    by (auto intro!: sum_list_nonneg simp: overpaid_def list_all_iff)
  with gap have rest: "50 \<le> fst ?r" by simp
  from allocAfter_conserves [of n 200 "rebuildHeap schedCD" "[]"]
  have "totalPaid (snd (snd ?r)) + fst ?r = 200" by (simp add: totalPaid_def)
  with rest have "totalPaid (snd (snd ?r)) \<le> 150" by simp
  with none rest l show ?thesis by simp
qed

text \<open>
  Claim C7 says that both \<^verbatim>\<open>displayPriorities\<close> and \<^verbatim>\<open>allocatePayment\<close> report
  that all loans are settled, distinctly from the report for an empty collection.
  \<^verbatim>\<open>displayPriorities\<close> does. \<^verbatim>\<open>allocatePayment\<close> reports the empty collection,
  but on the collection of one loan of principal 0 a payment of 50 does not return.
\<close>

theorem all_settled_allocation_hangs:
  "fst (displayPriorities (AdaptiveScheduler_ctor 0.05)) = [NoLoansToDisplay]
   \<and> allocatePayment 50 (AdaptiveScheduler_ctor 0.05)
       = Some ([NoLoansForRepayment], AdaptiveScheduler_ctor 0.05)
   \<and> loans schedPaid \<noteq> []
   \<and> list_all (\<lambda>L. principal L \<le> 1 / 10 ^ 6) (loans schedPaid)
   \<and> fst (displayPriorities schedPaid) = [PrioritiesHeader, AllRepaid]
   \<and> allocatePayment 50 schedPaid = None"
proof -
  have l: "loans schedPaid = [loanPaid]"
    by (simp add: schedPaid_def addLoan_def AdaptiveScheduler_ctor_def)
  have f: "principal loanPaid = 0" by (simp add: loanPaid_def Loan_ctor_def)
  have e: "loans (AdaptiveScheduler_ctor r) = []" for r by (simp add: AdaptiveScheduler_ctor_def)
  have d0: "fst (displayPriorities (AdaptiveScheduler_ctor 0.05)) = [NoLoansToDisplay]"
    by (simp add: displayPriorities_def e)
  have a0: "allocatePayment 50 (AdaptiveScheduler_ctor 0.05)
              = Some ([NoLoansForRepayment], AdaptiveScheduler_ctor 0.05)"
    by (simp add: allocatePayment_def e)
  have d1: "fst (displayPriorities schedPaid) = [PrioritiesHeader, AllRepaid]"
    by (rule displayPriorities_all_settled) (simp_all add: l f)
  have a1: "allocatePayment 50 schedPaid = None"
    by (rule overpayment_never_returns) (simp_all add: l f)
  from d0 a0 d1 a1 show ?thesis by (simp add: l f)
qed

end
